theory Spec2Isabelle
  imports Complex_Main
begin

section \<open>Data model of the timer screen (later revision)\<close>

text \<open>
  The embedding follows the later revision of the screen component (the one with
  \<open>filterClicks\<close>, \<open>lastPauseTimestamp\<close> and \<open>filterStartEvents\<close>). A TypeScript
  \<open>number\<close> is modelled as a rational: the engine itself only produces integers
  (second counts and millisecond timestamps), a persisted JSON document may hold any
  decimal, and the rounding of IEEE doubles, with the infinity that a JSON number too
  large for a double parses to, is outside the model.
\<close>

type_synonym number = rat

definition COUNTER_COUNT :: nat where
  "COUNTER_COUNT = 5"

definition GLOBAL_ALARM_INTERVAL_SECONDS :: number where
  "GLOBAL_ALARM_INTERVAL_SECONDS = 4 * 60 * 60"

record CounterState =
  id' :: number
  elapsed :: number
  isRunning :: bool
  isEmpty :: bool
  startCount :: number
  lastPauseTimestamp :: "number option"
  filterClicks :: number

record PersistedState =
  globalElapsed :: number
  globalRunning :: bool
  counters :: "CounterState list"
  filterStartEvents :: number

text \<open>
  The reactive state variables of the component: the four persisted ones and
  \<open>isHydrated\<close>.
\<close>

record HomeScreen = PersistedState +
  isHydrated :: bool

definition createInitialCounters :: "CounterState list" where
  "createInitialCounters =
     map (\<lambda>index. \<lparr>id' = of_nat index + 1, elapsed = 0, isRunning = False, isEmpty = True,
                    startCount = 0, lastPauseTimestamp = None, filterClicks = 0\<rparr>)
         [0..<COUNTER_COUNT]"

definition initial_state :: HomeScreen where
  "initial_state =
     \<lparr>globalElapsed = 0, globalRunning = False, counters = createInitialCounters,
      filterStartEvents = 0, isHydrated = False\<rparr>"

section \<open>Calls made by the handlers\<close>

text \<open>
  A handler is modelled by the list of calls it makes, in source order: calls to the
  alert collaborators (vibration, the four asynchronous sound functions, dialogs,
  console warnings) and calls to the state setters. A dialog carries its title, its
  buttons with what each one runs when pressed, and the \<open>cancelable\<close> option when the
  call gives one.
\<close>

datatype alert_title = ServiceInactif | Activation | RemiseAZero | Kamreen | Filtration

datatype on_press = NoHandler | StopAlarmOnPress | StopFilterOnPress | ActivateOnPress
  | ResetAllOnPress

datatype cmd =
    Vibrate "nat list"
  | PlayAlarmSound
  | StopAlarmSound
  | PlayFilterSound
  | StopFilterSound
  | ShowAlert alert_title "(string \<times> on_press) list" "bool option"
  | ConsoleWarn
  | SetGlobalElapsed number
  | SetGlobalRunning bool
  | SetCounters "CounterState list"
  | SetFilterStartEvents number
  | SetIsHydrated bool

fun apply_cmd :: "HomeScreen \<Rightarrow> cmd \<Rightarrow> HomeScreen" where
  "apply_cmd s (SetGlobalElapsed n) = s\<lparr>globalElapsed := n\<rparr>"
| "apply_cmd s (SetGlobalRunning b) = s\<lparr>globalRunning := b\<rparr>"
| "apply_cmd s (SetCounters cs) = s\<lparr>counters := cs\<rparr>"
| "apply_cmd s (SetFilterStartEvents n) = s\<lparr>filterStartEvents := n\<rparr>"
| "apply_cmd s (SetIsHydrated b) = s\<lparr>isHydrated := b\<rparr>"
| "apply_cmd s _ = s"

definition run :: "cmd list \<Rightarrow> HomeScreen \<Rightarrow> HomeScreen" where
  "run cs s = foldl apply_cmd s cs"

section \<open>Intent handlers, tick callbacks and effects\<close>

definition triggerFilterAlert :: "cmd list" where
  "triggerFilterAlert =
     [Vibrate [0, 400, 150, 400], PlayFilterSound,
      ShowAlert Filtration [(''OK'', StopFilterOnPress)] (Some False)]"

definition isAnyCounterRunning :: "HomeScreen \<Rightarrow> bool" where
  "isAnyCounterRunning s = list_ex isRunning (counters s)"

text \<open>The interval callback of the global timer; the interval exists only while
  the screen is hydrated and the service runs.\<close>

definition globalTick :: "HomeScreen \<Rightarrow> cmd list" where
  "globalTick s =
     (if \<not> isHydrated s \<or> \<not> globalRunning s then []
      else [SetGlobalElapsed
              (if globalElapsed s + 1 \<ge> GLOBAL_ALARM_INTERVAL_SECONDS
               then GLOBAL_ALARM_INTERVAL_SECONDS
               else globalElapsed s + 1)])"

definition tickCounter :: "CounterState \<Rightarrow> CounterState" where
  "tickCounter counter =
     (if \<not> isRunning counter then counter
      else counter\<lparr>elapsed := elapsed counter + 1, isEmpty := False\<rparr>)"

definition counterTick :: "HomeScreen \<Rightarrow> cmd list" where
  "counterTick s =
     (if \<not> isHydrated s \<or> \<not> isAnyCounterRunning s then []
      else [SetCounters (map tickCounter (counters s))])"

definition alarmEffect :: "HomeScreen \<Rightarrow> cmd list" where
  "alarmEffect s =
     (if \<not> isHydrated s \<or> \<not> globalRunning s then []
      else if globalElapsed s < GLOBAL_ALARM_INTERVAL_SECONDS then []
      else [Vibrate [0, 500, 200, 500], PlayAlarmSound, SetGlobalElapsed 0,
            ShowAlert Kamreen [(''OK'', StopAlarmOnPress)] (Some False)])"

definition handleActivateGlobal :: "HomeScreen \<Rightarrow> cmd list" where
  "handleActivateGlobal s =
     (if globalRunning s then []
      else [ShowAlert Activation [(''Non'', NoHandler), (''Oui'', ActivateOnPress)] None])"

definition handleConfirmResetAll :: "HomeScreen \<Rightarrow> cmd list" where
  "handleConfirmResetAll s =
     [ShowAlert RemiseAZero [(''Annuler'', NoHandler), (''Oui'', ResetAllOnPress)] None]"

fun onPress :: "on_press \<Rightarrow> cmd list" where
  "onPress NoHandler = []"
| "onPress StopAlarmOnPress = [StopAlarmSound]"
| "onPress StopFilterOnPress = [StopFilterSound]"
| "onPress ActivateOnPress = [SetGlobalElapsed 0, SetGlobalRunning True]"
| "onPress ResetAllOnPress =
     [StopAlarmSound, StopFilterSound, SetGlobalRunning False, SetGlobalElapsed 0,
      SetCounters createInitialCounters, SetFilterStartEvents 0]"

text \<open>
  \<open>allowFilterIncrementPrecomputed\<close>: computed from the counters of the current
  render, before any setter is called. \<open>now\<close> is the clock reading taken at the top of
  the handler.
\<close>

definition allowFilterIncrement :: "number \<Rightarrow> number \<Rightarrow> HomeScreen \<Rightarrow> bool" where
  "allowFilterIncrement now i s =
     (let target = find (\<lambda>c. id' c = i) (counters s);
          isStarting = (case target of Some t \<Rightarrow> \<not> isRunning t | None \<Rightarrow> True)
      in isStarting \<and>
         (case target of
            None \<Rightarrow> False
          | Some t \<Rightarrow>
              isEmpty t \<or>
              (case lastPauseTimestamp t of
                 None \<Rightarrow> False
               | Some ts \<Rightarrow> now - ts \<ge> 30000)))"

text \<open>The updater passed to the counters setter; \<open>now'\<close> is the second clock reading,
  taken inside the updater when the counter is paused.\<close>

definition toggleCounter :: "bool \<Rightarrow> number \<Rightarrow> number \<Rightarrow> CounterState \<Rightarrow> CounterState" where
  "toggleCounter allow now' i counter =
     (if id' counter \<noteq> i then counter
      else if isRunning counter
      then counter\<lparr>isRunning := False, lastPauseTimestamp := Some now'\<rparr>
      else counter\<lparr>isRunning := True, isEmpty := False, startCount := 0,
                   lastPauseTimestamp := None,
                   filterClicks := (if allow then filterClicks counter + 1
                                    else filterClicks counter)\<rparr>)"

text \<open>The updater passed to the accumulator setter, with the alert it raises.\<close>

definition filterStartEventsUpdate :: "number \<Rightarrow> cmd list" where
  "filterStartEventsUpdate prev =
     (let next = prev + 1
      in if next \<ge> 2 then triggerFilterAlert @ [SetFilterStartEvents 0]
         else [SetFilterStartEvents next])"

definition handleToggleCounter :: "number \<Rightarrow> number \<Rightarrow> number \<Rightarrow> HomeScreen \<Rightarrow> cmd list" where
  "handleToggleCounter now now' i s =
     (if \<not> globalRunning s then [ShowAlert ServiceInactif [] None]
      else
        let allow = allowFilterIncrement now i s
        in [SetCounters (map (toggleCounter allow now' i) (counters s))] @
           (if allow then filterStartEventsUpdate (filterStartEvents s) else []))"

definition clearCounter :: "number \<Rightarrow> CounterState \<Rightarrow> CounterState" where
  "clearCounter i counter =
     (if id' counter \<noteq> i then counter
      else counter\<lparr>elapsed := 0, isRunning := False, isEmpty := True, startCount := 0,
                   lastPauseTimestamp := None, filterClicks := 0\<rparr>)"

definition handleClearCounter :: "number \<Rightarrow> HomeScreen \<Rightarrow> cmd list" where
  "handleClearCounter i s = [SetCounters (map (clearCounter i) (counters s))]"

text \<open>
  Everything that can happen to a mounted screen apart from hydration: the two
  interval callbacks, a run of the alarm effect, the four intents and a press on a
  dialog button. A toggle carries its two clock readings and the counter id.
\<close>

datatype event =
    GlobalTick
  | CounterTick
  | AlarmEffect
  | ActivateGlobal
  | ConfirmResetAll
  | ToggleCounter number number number
  | ClearCounter number
  | Press on_press

fun calls :: "event \<Rightarrow> HomeScreen \<Rightarrow> cmd list" where
  "calls GlobalTick s = globalTick s"
| "calls CounterTick s = counterTick s"
| "calls AlarmEffect s = alarmEffect s"
| "calls ActivateGlobal s = handleActivateGlobal s"
| "calls ConfirmResetAll s = handleConfirmResetAll s"
| "calls (ToggleCounter now now' i) s = handleToggleCounter now now' i s"
| "calls (ClearCounter i) s = handleClearCounter i s"
| "calls (Press p) s = onPress p"

definition step :: "event \<Rightarrow> HomeScreen \<Rightarrow> HomeScreen" where
  "step ev s = run (calls ev s) s"

section \<open>Persistence and hydration\<close>

text \<open>
  The store holds one JSON text. \<open>JSON.stringify\<close> and \<open>JSON.parse\<close> belong to the
  language runtime; the model works on the parsed value, an object being the list of
  its properties. Reading the store gives no item, a failure (the read is rejected or
  the text does not parse), or a parsed value.
\<close>

datatype json =
    JNull
  | JBool bool
  | JNum number
  | JStr string
  | JArr "json list"
  | JObj "(string \<times> json) list"

datatype stored = NoItem | ReadFailed | Parsed json

datatype js_error = TypeError

text \<open>Reading a property: \<open>undefined\<close> is \<open>None\<close>; reading a property of \<open>null\<close>
  throws.\<close>

fun property :: "json \<Rightarrow> string \<Rightarrow> js_error + json option" where
  "property JNull k = Inl TypeError"
| "property (JObj kvs) k = Inr (map_of kvs k)"
| "property _ k = Inr None"

definition counter_json :: "CounterState \<Rightarrow> json" where
  "counter_json c =
     JObj [(''id'', JNum (id' c)), (''elapsed'', JNum (elapsed c)),
           (''isRunning'', JBool (isRunning c)), (''isEmpty'', JBool (isEmpty c)),
           (''startCount'', JNum (startCount c)),
           (''lastPauseTimestamp'',
              (case lastPauseTimestamp c of None \<Rightarrow> JNull | Some t \<Rightarrow> JNum t)),
           (''filterClicks'', JNum (filterClicks c))]"

definition payload_json :: "HomeScreen \<Rightarrow> json" where
  "payload_json s =
     JObj [(''globalElapsed'', JNum (globalElapsed s)),
           (''globalRunning'', JBool (globalRunning s)),
           (''counters'', JArr (map counter_json (counters s))),
           (''filterStartEvents'', JNum (filterStartEvents s))]"

text \<open>The persist effect: what is written to the store after a render, if anything.\<close>

definition persist :: "HomeScreen \<Rightarrow> json option" where
  "persist s = (if \<not> isHydrated s then None else Some (payload_json s))"

text \<open>\<open>parsed.counters?.find((item) => item.id === initial.id)\<close>: the first item whose
  \<open>id\<close> is the wanted number; an item \<open>null\<close> met before it throws.\<close>

fun find_persisted :: "json list \<Rightarrow> number \<Rightarrow> js_error + json option" where
  "find_persisted [] i = Inr None"
| "find_persisted (item # items) i =
     (case property item ''id'' of
        Inl e \<Rightarrow> Inl e
      | Inr v \<Rightarrow> if v = Some (JNum i) then Inr (Some item) else find_persisted items i)"

definition number_field :: "json \<Rightarrow> string \<Rightarrow> number \<Rightarrow> number" where
  "number_field persisted k dflt =
     (case property persisted k of
        Inr (Some (JNum n)) \<Rightarrow> if n \<ge> 0 then n else dflt
      | _ \<Rightarrow> dflt)"

definition boolean_field :: "json \<Rightarrow> string \<Rightarrow> bool \<Rightarrow> bool" where
  "boolean_field persisted k dflt =
     (case property persisted k of Inr (Some (JBool b)) \<Rightarrow> b | _ \<Rightarrow> dflt)"

definition hydrateCounter :: "json list \<Rightarrow> CounterState \<Rightarrow> js_error + CounterState" where
  "hydrateCounter items initial =
     (case find_persisted items (id' initial) of
        Inl e \<Rightarrow> Inl e
      | Inr None \<Rightarrow> Inr initial
      | Inr (Some persisted) \<Rightarrow>
          Inr (initial\<lparr>
            elapsed := number_field persisted ''elapsed'' (elapsed initial),
            isRunning := boolean_field persisted ''isRunning'' (isRunning initial),
            isEmpty := boolean_field persisted ''isEmpty'' (isEmpty initial),
            startCount := number_field persisted ''startCount'' (startCount initial),
            lastPauseTimestamp :=
              (case property persisted ''lastPauseTimestamp'' of
                 Inr (Some (JNum n)) \<Rightarrow> Some n
               | _ \<Rightarrow> lastPauseTimestamp initial),
            filterClicks := number_field persisted ''filterClicks'' (filterClicks initial)\<rparr>))"

fun hydrateCounters :: "json list \<Rightarrow> CounterState list \<Rightarrow> js_error + CounterState list" where
  "hydrateCounters items [] = Inr []"
| "hydrateCounters items (initial # rest) =
     (case hydrateCounter items initial of
        Inl e \<Rightarrow> Inl e
      | Inr c \<Rightarrow>
          (case hydrateCounters items rest of
             Inl e \<Rightarrow> Inl e
           | Inr cs \<Rightarrow> Inr (c # cs)))"

text \<open>
  The hydration effect. An exception raised inside the \<open>try\<close> block (a rejected read,
  a text that does not parse, a property read on a parsed \<open>null\<close>) is caught and
  logged. The counters are set through an updater function, which runs when the
  state is next computed and so outside the \<open>try\<close> block: an exception in it is
  not caught by the effect, and is the result \<open>Inl\<close>.
\<close>

definition hydration :: "stored \<Rightarrow> HomeScreen \<Rightarrow> js_error + cmd list" where
  "hydration st s =
     (case st of
        NoItem \<Rightarrow> Inr [SetIsHydrated True]
      | ReadFailed \<Rightarrow> Inr [ConsoleWarn, SetIsHydrated True]
      | Parsed parsed \<Rightarrow>
          (case property parsed ''globalElapsed'' of
             Inl e \<Rightarrow> Inr [ConsoleWarn, SetIsHydrated True]
           | Inr ge \<Rightarrow>
               let setElapsed = (case ge of Some (JNum n) \<Rightarrow> [SetGlobalElapsed n] | _ \<Rightarrow> []);
                   setRunning =
                     (case property parsed ''globalRunning'' of
                        Inr (Some (JBool b)) \<Rightarrow> [SetGlobalRunning b]
                      | _ \<Rightarrow> []);
                   setEvents =
                     (case property parsed ''filterStartEvents'' of
                        Inr (Some (JNum n)) \<Rightarrow> if n \<ge> 0 then [SetFilterStartEvents n] else []
                      | _ \<Rightarrow> [])
               in (case property parsed ''counters'' of
                     Inr (Some (JArr items)) \<Rightarrow>
                       (case hydrateCounters items (counters s) of
                          Inl e \<Rightarrow> Inl e
                        | Inr cs \<Rightarrow>
                            Inr (setElapsed @ setRunning @ [SetCounters cs] @ setEvents @
                                 [SetIsHydrated True]))
                   | _ \<Rightarrow> Inr (setElapsed @ setRunning @ setEvents @ [SetIsHydrated True]))))"

definition hydrate :: "stored \<Rightarrow> HomeScreen \<Rightarrow> js_error + HomeScreen" where
  "hydrate st s =
     (case hydration st s of Inl e \<Rightarrow> Inl e | Inr cs \<Rightarrow> Inr (run cs s))"

section \<open>The sound functions\<close>




















section \<open>Reachable states and invariants\<close>

text \<open>
  A screen is mounted in its initial state. It is hydrated once, while \<open>isHydrated\<close>
  is still false, from a store that is empty, unreadable, or holds what the persist
  effect wrote from a reachable state of an earlier run. Every event may follow.
\<close>

inductive reachable :: "HomeScreen \<Rightarrow> bool" where
  mount: "reachable initial_state"
| event: "reachable s \<Longrightarrow> reachable (step ev s)"
| hydrate_fresh:
    "reachable s \<Longrightarrow> \<not> isHydrated s \<Longrightarrow> st = NoItem \<or> st = ReadFailed \<Longrightarrow>
     hydrate st s = Inr s' \<Longrightarrow> reachable s'"
| hydrate_own:
    "reachable s \<Longrightarrow> \<not> isHydrated s \<Longrightarrow> reachable t \<Longrightarrow> persist t = Some j \<Longrightarrow>
     hydrate (Parsed j) s = Inr s' \<Longrightarrow> reachable s'"

text \<open>
  The same, with a store that may hold anything at all: a snapshot of the earlier
  revision, a damaged one, any JSON value.
\<close>

inductive reachable_from_any_store :: "HomeScreen \<Rightarrow> bool" where
  mount_any: "reachable_from_any_store initial_state"
| event_any: "reachable_from_any_store s \<Longrightarrow> reachable_from_any_store (step ev s)"
| hydrate_any:
    "reachable_from_any_store s \<Longrightarrow> \<not> isHydrated s \<Longrightarrow> hydrate st s = Inr s' \<Longrightarrow>
     reachable_from_any_store s'"

text \<open>The counter invariant as the data model words it: exactly one of \<open>isEmpty\<close> and
  "has nonzero elapsed or is running".\<close>

definition exactlyOne :: "CounterState \<Rightarrow> bool" where
  "exactlyOne c = (isEmpty c \<noteq> (elapsed c \<noteq> 0 \<or> isRunning c))"

text \<open>At most one of the two: an empty counter has no elapsed time and is not
  running.\<close>

definition atMostOne :: "CounterState \<Rightarrow> bool" where
  "atMostOne c = (\<not> (isEmpty c \<and> (elapsed c \<noteq> 0 \<or> isRunning c)))"

text \<open>The fields of a counter that hydration range-checks.\<close>

definition storable :: "CounterState \<Rightarrow> bool" where
  "storable c = (elapsed c \<ge> 0 \<and> startCount c \<ge> 0 \<and> filterClicks c \<ge> 0)"

text \<open>What a state needs for its snapshot to pass the checks of hydration: the five
  ids in order, and no negative number in a range-checked field.\<close>

definition persistable :: "HomeScreen \<Rightarrow> bool" where
  "persistable s =
     (map id' (counters s) = [1, 2, 3, 4, 5] \<and>
      list_all storable (counters s) \<and>
      0 \<le> filterStartEvents s)"

definition invariant :: "HomeScreen \<Rightarrow> bool" where
  "invariant s =
     (persistable s \<and>
      list_all atMostOne (counters s) \<and>
      0 \<le> globalElapsed s \<and> globalElapsed s \<le> GLOBAL_ALARM_INTERVAL_SECONDS \<and>
      (filterStartEvents s = 0 \<or> filterStartEvents s = 1))"

text \<open>The calls that keep a state persistable.\<close>

fun keeps_persistable :: "cmd \<Rightarrow> bool" where
  "keeps_persistable (SetCounters cs) =
     (map id' cs = [1, 2, 3, 4, 5] \<and> list_all storable cs)"
| "keeps_persistable (SetFilterStartEvents n) = (0 \<le> n)"
| "keeps_persistable _ = True"

text \<open>What hydration makes of a counter when the store holds the counters \<open>cs\<close> as the
  persist effect writes them.\<close>

definition overlay :: "CounterState list \<Rightarrow> CounterState \<Rightarrow> CounterState" where
  "overlay cs initial =
     (case find (\<lambda>c. id' c = id' initial) cs of
        None \<Rightarrow> initial
      | Some c \<Rightarrow>
          c\<lparr>lastPauseTimestamp :=
              (case lastPauseTimestamp c of
                 None \<Rightarrow> lastPauseTimestamp initial
               | Some t \<Rightarrow> Some t)\<rparr>)"

section \<open>Concrete states used in examples\<close>

text \<open>A fresh install, hydrated from an empty store and activated.\<close>

definition activated :: HomeScreen where
  "activated =
     \<lparr>globalElapsed = 0, globalRunning = True, counters = createInitialCounters,
      filterStartEvents = 0, isHydrated = True\<rparr>"

text \<open>Counter 3 started at clock reading 1000: one qualifying start so far.\<close>

definition started3 :: HomeScreen where
  "started3 = step (ToggleCounter 1000 1000 3) activated"

text \<open>Counter 3 paused again at clock reading 2000, before any tick.\<close>

definition paused3 :: HomeScreen where
  "paused3 = step (ToggleCounter 2000 2000 3) started3"

text \<open>The service running with the alarm interval just reached.\<close>

definition alarm_due :: HomeScreen where
  "alarm_due = activated\<lparr>globalElapsed := GLOBAL_ALARM_INTERVAL_SECONDS\<rparr>"

text \<open>A fresh screen hydrated from a store that holds only \<open>isRunning = true\<close> for
  counter 1.\<close>

definition half_restored :: HomeScreen where
  "half_restored =
     \<lparr>globalElapsed = 0, globalRunning = False,
      counters =
        [\<lparr>id' = 1, elapsed = 0, isRunning = True, isEmpty = True,
           startCount = 0, lastPauseTimestamp = None, filterClicks = 0\<rparr>,
         \<lparr>id' = 2, elapsed = 0, isRunning = False, isEmpty = True,
           startCount = 0, lastPauseTimestamp = None, filterClicks = 0\<rparr>,
         \<lparr>id' = 3, elapsed = 0, isRunning = False, isEmpty = True,
           startCount = 0, lastPauseTimestamp = None, filterClicks = 0\<rparr>,
         \<lparr>id' = 4, elapsed = 0, isRunning = False, isEmpty = True,
           startCount = 0, lastPauseTimestamp = None, filterClicks = 0\<rparr>,
         \<lparr>id' = 5, elapsed = 0, isRunning = False, isEmpty = True,
           startCount = 0, lastPauseTimestamp = None, filterClicks = 0\<rparr>],
      filterStartEvents = 0, isHydrated = True\<rparr>"

text \<open>
  The scenario worked in the specification: counter 3 started, five ticks, a pause at
  clock reading 100000, a resume 10 s later, a second pause at 120000.
\<close>

definition scenario_running :: HomeScreen where
  "scenario_running = (step CounterTick ^^ 5) started3"

definition scenario_paused :: HomeScreen where
  "scenario_paused = step (ToggleCounter 100000 100000 3) scenario_running"

definition scenario_resumed :: HomeScreen where
  "scenario_resumed = step (ToggleCounter 110000 110000 3) scenario_paused"

definition scenario_paused_again :: HomeScreen where
  "scenario_paused_again = step (ToggleCounter 120000 120000 3) scenario_resumed"











section \<open>Basic facts\<close>

lemma createInitialCounters_eq:
  "createInitialCounters =
     [\<lparr>id' = 1, elapsed = 0, isRunning = False, isEmpty = True,
        startCount = 0, lastPauseTimestamp = None, filterClicks = 0\<rparr>,
      \<lparr>id' = 2, elapsed = 0, isRunning = False, isEmpty = True,
        startCount = 0, lastPauseTimestamp = None, filterClicks = 0\<rparr>,
      \<lparr>id' = 3, elapsed = 0, isRunning = False, isEmpty = True,
        startCount = 0, lastPauseTimestamp = None, filterClicks = 0\<rparr>,
      \<lparr>id' = 4, elapsed = 0, isRunning = False, isEmpty = True,
        startCount = 0, lastPauseTimestamp = None, filterClicks = 0\<rparr>,
      \<lparr>id' = 5, elapsed = 0, isRunning = False, isEmpty = True,
        startCount = 0, lastPauseTimestamp = None, filterClicks = 0\<rparr>]"
  by (simp add: createInitialCounters_def COUNTER_COUNT_def upt_conv_Cons)

lemma run_Nil [simp]: "run [] s = s"
  by (simp add: run_def)

lemma run_Cons [simp]: "run (c # cs) s = run cs (apply_cmd s c)"
  by (simp add: run_def)

lemma interval_positive: "0 < GLOBAL_ALARM_INTERVAL_SECONDS"
  by (simp add: GLOBAL_ALARM_INTERVAL_SECONDS_def)

lemma started3_eq:
  "started3 =
     \<lparr>globalElapsed = 0, globalRunning = True,
      counters =
        [\<lparr>id' = 1, elapsed = 0, isRunning = False, isEmpty = True,
           startCount = 0, lastPauseTimestamp = None, filterClicks = 0\<rparr>,
         \<lparr>id' = 2, elapsed = 0, isRunning = False, isEmpty = True,
           startCount = 0, lastPauseTimestamp = None, filterClicks = 0\<rparr>,
         \<lparr>id' = 3, elapsed = 0, isRunning = True, isEmpty = False,
           startCount = 0, lastPauseTimestamp = None, filterClicks = 1\<rparr>,
         \<lparr>id' = 4, elapsed = 0, isRunning = False, isEmpty = True,
           startCount = 0, lastPauseTimestamp = None, filterClicks = 0\<rparr>,
         \<lparr>id' = 5, elapsed = 0, isRunning = False, isEmpty = True,
           startCount = 0, lastPauseTimestamp = None, filterClicks = 0\<rparr>],
      filterStartEvents = 1, isHydrated = True\<rparr>"
  by (simp add: started3_def activated_def step_def handleToggleCounter_def
      allowFilterIncrement_def toggleCounter_def filterStartEventsUpdate_def
      createInitialCounters_eq)

lemma paused3_eq:
  "paused3 =
     \<lparr>globalElapsed = 0, globalRunning = True,
      counters =
        [\<lparr>id' = 1, elapsed = 0, isRunning = False, isEmpty = True,
           startCount = 0, lastPauseTimestamp = None, filterClicks = 0\<rparr>,
         \<lparr>id' = 2, elapsed = 0, isRunning = False, isEmpty = True,
           startCount = 0, lastPauseTimestamp = None, filterClicks = 0\<rparr>,
         \<lparr>id' = 3, elapsed = 0, isRunning = False, isEmpty = False,
           startCount = 0, lastPauseTimestamp = Some 2000, filterClicks = 1\<rparr>,
         \<lparr>id' = 4, elapsed = 0, isRunning = False, isEmpty = True,
           startCount = 0, lastPauseTimestamp = None, filterClicks = 0\<rparr>,
         \<lparr>id' = 5, elapsed = 0, isRunning = False, isEmpty = True,
           startCount = 0, lastPauseTimestamp = None, filterClicks = 0\<rparr>],
      filterStartEvents = 1, isHydrated = True\<rparr>"
  by (simp add: paused3_def started3_eq step_def handleToggleCounter_def
      allowFilterIncrement_def toggleCounter_def filterStartEventsUpdate_def)

subsection \<open>What each event does to the state variables\<close>

subsection \<open>What each event does to the state variables\<close>

subsection \<open>What each event does to the state variables\<close>

lemma step_GlobalTick:
  "step GlobalTick s =
     (if isHydrated s \<and> globalRunning s
      then s\<lparr>globalElapsed := min (globalElapsed s + 1) GLOBAL_ALARM_INTERVAL_SECONDS\<rparr>
      else s)"
  by (auto simp add: step_def globalTick_def min_def)

lemma step_CounterTick:
  "step CounterTick s =
     (if isHydrated s \<and> isAnyCounterRunning s
      then s\<lparr>counters := map tickCounter (counters s)\<rparr> else s)"
  by (simp add: step_def counterTick_def)

lemma step_AlarmEffect:
  "step AlarmEffect s =
     (if isHydrated s \<and> globalRunning s \<and> globalElapsed s \<ge> GLOBAL_ALARM_INTERVAL_SECONDS
      then s\<lparr>globalElapsed := 0\<rparr> else s)"
  by (auto simp add: step_def alarmEffect_def)

lemma step_ActivateGlobal: "step ActivateGlobal s = s"
  by (simp add: step_def handleActivateGlobal_def)

lemma step_ConfirmResetAll: "step ConfirmResetAll s = s"
  by (simp add: step_def handleConfirmResetAll_def)

lemma step_ClearCounter:
  "step (ClearCounter i) s = s\<lparr>counters := map (clearCounter i) (counters s)\<rparr>"
  by (simp add: step_def handleClearCounter_def)

lemma step_ToggleCounter:
  "step (ToggleCounter now now' i) s =
     (if \<not> globalRunning s then s
      else if allowFilterIncrement now i s
      then s\<lparr>counters := map (toggleCounter True now' i) (counters s),
             filterStartEvents :=
               (if filterStartEvents s + 1 \<ge> 2 then 0 else filterStartEvents s + 1)\<rparr>
      else s\<lparr>counters := map (toggleCounter False now' i) (counters s)\<rparr>)"
  by (simp add: step_def handleToggleCounter_def filterStartEventsUpdate_def
      triggerFilterAlert_def Let_def)

lemma step_Press:
  "step (Press p) s =
     (case p of
        NoHandler \<Rightarrow> s
      | StopAlarmOnPress \<Rightarrow> s
      | StopFilterOnPress \<Rightarrow> s
      | ActivateOnPress \<Rightarrow> s\<lparr>globalElapsed := 0, globalRunning := True\<rparr>
      | ResetAllOnPress \<Rightarrow>
          s\<lparr>globalRunning := False, globalElapsed := 0, counters := createInitialCounters,
            filterStartEvents := 0\<rparr>)"
  by (cases p) (simp_all add: step_def)

lemmas step_simps = step_GlobalTick step_CounterTick step_AlarmEffect step_ActivateGlobal
  step_ConfirmResetAll step_ClearCounter step_ToggleCounter step_Press

subsection \<open>The updaters keep ids, ranges and the empty flag consistent\<close>

lemma id_toggleCounter [simp]: "id' (toggleCounter a n i c) = id' c"
  by (simp add: toggleCounter_def)

lemma id_clearCounter [simp]: "id' (clearCounter i c) = id' c"
  by (simp add: clearCounter_def)

lemma id_tickCounter [simp]: "id' (tickCounter c) = id' c"
  by (simp add: tickCounter_def)

lemma id_comp_toggleCounter [simp]: "id' \<circ> toggleCounter a n i = id'"
  by (rule ext) simp

lemma id_comp_clearCounter [simp]: "id' \<circ> clearCounter i = id'"
  by (rule ext) simp

lemma id_comp_tickCounter [simp]: "id' \<circ> tickCounter = id'"
  by (rule ext) simp

lemma storable_toggleCounter: "storable c \<Longrightarrow> storable (toggleCounter a n i c)"
  by (simp add: toggleCounter_def storable_def)

lemma storable_clearCounter: "storable c \<Longrightarrow> storable (clearCounter i c)"
  by (simp add: clearCounter_def storable_def)

lemma storable_tickCounter: "storable c \<Longrightarrow> storable (tickCounter c)"
  by (simp add: tickCounter_def storable_def)

lemma atMostOne_toggleCounter: "atMostOne c \<Longrightarrow> atMostOne (toggleCounter a n i c)"
  by (auto simp add: toggleCounter_def atMostOne_def)

lemma atMostOne_clearCounter: "atMostOne c \<Longrightarrow> atMostOne (clearCounter i c)"
  by (simp add: clearCounter_def atMostOne_def)

lemma atMostOne_tickCounter: "atMostOne c \<Longrightarrow> atMostOne (tickCounter c)"
  by (simp add: tickCounter_def atMostOne_def)

lemma atMostOne_initial: "list_all atMostOne createInitialCounters"
  by (simp add: createInitialCounters_eq atMostOne_def)

lemma list_all_map_preserved:
  "(\<And>c. P c \<Longrightarrow> P (f c)) \<Longrightarrow> list_all P cs \<Longrightarrow> list_all P (map f cs)"
  by (induction cs) simp_all

lemma find_map_toggleCounter:
  "find (\<lambda>c. id' c = i) (map (toggleCounter a n j) cs) =
     map_option (toggleCounter a n j) (find (\<lambda>c. id' c = i) cs)"
  by (induction cs) simp_all

section \<open>The invariant under events\<close>

lemma invariant_initial: "invariant initial_state"
  by (simp add: invariant_def persistable_def initial_state_def createInitialCounters_eq storable_def
      atMostOne_def interval_positive less_imp_le)

lemma invariant_step: "invariant s \<Longrightarrow> invariant (step ev s)"
proof (cases ev)
  case GlobalTick
  assume "invariant s"
  then show ?thesis unfolding GlobalTick
    by (auto simp add: step_GlobalTick invariant_def persistable_def min_def)
next
  case CounterTick
  assume "invariant s"
  then show ?thesis unfolding CounterTick
    by (simp add: step_CounterTick invariant_def persistable_def
        list_all_map_preserved storable_tickCounter atMostOne_tickCounter)
next
  case AlarmEffect
  assume "invariant s"
  then show ?thesis unfolding AlarmEffect
    by (simp add: step_AlarmEffect invariant_def persistable_def)
next
  case ActivateGlobal
  assume "invariant s"
  then show ?thesis unfolding ActivateGlobal by (simp add: step_ActivateGlobal)
next
  case ConfirmResetAll
  assume "invariant s"
  then show ?thesis unfolding ConfirmResetAll by (simp add: step_ConfirmResetAll)
next
  case (ToggleCounter now now' i)
  assume "invariant s"
  then show ?thesis unfolding ToggleCounter
    by (auto simp add: step_ToggleCounter invariant_def persistable_def
        list_all_map_preserved storable_toggleCounter atMostOne_toggleCounter)
next
  case (ClearCounter i)
  assume "invariant s"
  then show ?thesis unfolding ClearCounter
    by (simp add: step_ClearCounter invariant_def persistable_def
        list_all_map_preserved storable_clearCounter atMostOne_clearCounter)
next
  case (Press p)
  assume inv: "invariant s"
  have "invariant (s\<lparr>globalRunning := False, globalElapsed := 0,
      counters := createInitialCounters, filterStartEvents := 0\<rparr>)"
    using invariant_initial
    by (simp add: invariant_def persistable_def initial_state_def)
  with inv show ?thesis unfolding Press
    by (cases p) (simp_all add: step_Press invariant_def persistable_def interval_positive less_imp_le)
qed

lemma persistable_initial: "persistable initial_state"
  using invariant_initial by (simp add: invariant_def)

lemma persistable_step: "persistable s \<Longrightarrow> persistable (step ev s)"
proof (cases ev)
  case (Press p)
  assume "persistable s"
  with persistable_initial show ?thesis unfolding Press
    by (cases p) (simp_all add: step_Press persistable_def initial_state_def)
qed (auto simp add: step_simps persistable_def list_all_map_preserved storable_tickCounter
    storable_toggleCounter storable_clearCounter)

section \<open>Hydration from a snapshot written by the persist effect\<close>

lemma property_counter_json:
  "property (counter_json c) ''id'' = Inr (Some (JNum (id' c)))"
  "property (counter_json c) ''elapsed'' = Inr (Some (JNum (elapsed c)))"
  "property (counter_json c) ''isRunning'' = Inr (Some (JBool (isRunning c)))"
  "property (counter_json c) ''isEmpty'' = Inr (Some (JBool (isEmpty c)))"
  "property (counter_json c) ''startCount'' = Inr (Some (JNum (startCount c)))"
  "property (counter_json c) ''lastPauseTimestamp'' =
     Inr (Some (case lastPauseTimestamp c of None \<Rightarrow> JNull | Some t \<Rightarrow> JNum t))"
  "property (counter_json c) ''filterClicks'' = Inr (Some (JNum (filterClicks c)))"
  by (simp_all add: counter_json_def)

lemma find_persisted_own:
  "find_persisted (map counter_json cs) i =
     Inr (map_option counter_json (find (\<lambda>c. id' c = i) cs))"
  by (induction cs) (simp_all add: property_counter_json)

lemma hydrateCounter_own:
  assumes "list_all storable cs"
  shows "hydrateCounter (map counter_json cs) initial = Inr (overlay cs initial)"
proof (cases "find (\<lambda>c. id' c = id' initial) cs")
  case None
  then show ?thesis
    by (simp add: hydrateCounter_def find_persisted_own overlay_def)
next
  case (Some c)
  then have mem: "c \<in> set cs" and same: "id' c = id' initial"
    by (auto simp add: find_Some_iff)
  from mem assms have st: "storable c"
    by (simp add: list_all_iff)
  from Some st same show ?thesis
    by (cases c, cases initial)
      (simp add: hydrateCounter_def find_persisted_own overlay_def number_field_def
        boolean_field_def counter_json_def storable_def split: option.split)
qed

lemma hydrateCounters_own:
  "list_all storable cs \<Longrightarrow>
     hydrateCounters (map counter_json cs) initials = Inr (map (overlay cs) initials)"
  by (induction initials) (simp_all add: hydrateCounter_own)

lemma hydrate_own_snapshot:
  assumes "list_all storable (counters t)" and "0 \<le> filterStartEvents t"
  shows "hydrate (Parsed (payload_json t)) s =
     Inr (s\<lparr>globalElapsed := globalElapsed t, globalRunning := globalRunning t,
            counters := map (overlay (counters t)) (counters s),
            filterStartEvents := filterStartEvents t, isHydrated := True\<rparr>)"
  using assms
  by (simp add: hydrate_def hydration_def payload_json_def hydrateCounters_own)

lemma hydrate_no_snapshot:
  "st = NoItem \<or> st = ReadFailed \<Longrightarrow> hydrate st s = Inr (s\<lparr>isHydrated := True\<rparr>)"
  by (auto simp add: hydrate_def hydration_def)

lemma persist_Some: "persist t = Some j \<Longrightarrow> isHydrated t \<and> j = payload_json t"
  by (auto simp add: persist_def split: if_splits)

lemma id_overlay [simp]: "id' (overlay cs c) = id' c"
  by (auto simp add: overlay_def find_Some_iff split: option.split)

lemma id_comp_overlay [simp]: "id' \<circ> overlay cs = id'"
  by (rule ext) simp

lemma storable_overlay:
  "list_all storable cs \<Longrightarrow> storable c \<Longrightarrow> storable (overlay cs c)"
  by (auto simp add: overlay_def find_Some_iff list_all_iff storable_def split: option.split)

lemma atMostOne_overlay:
  "list_all atMostOne cs \<Longrightarrow> atMostOne c \<Longrightarrow> atMostOne (overlay cs c)"
  by (auto simp add: overlay_def find_Some_iff list_all_iff atMostOne_def split: option.split)

lemma list_all_overlay:
  "list_all storable cs \<Longrightarrow> list_all storable xs \<Longrightarrow> list_all storable (map (overlay cs) xs)"
  "list_all atMostOne cs \<Longrightarrow> list_all atMostOne xs \<Longrightarrow> list_all atMostOne (map (overlay cs) xs)"
  by (induction xs) (simp_all add: storable_overlay atMostOne_overlay)

text \<open>
  Hydrating counters that carry the same ids and no pause timestamp gives back the
  persisted counters.
\<close>

lemma find_nth_distinct:
  "distinct (map f xs) \<Longrightarrow> k < length xs \<Longrightarrow> find (\<lambda>x. f x = f (xs ! k)) xs = Some (xs ! k)"
proof (induction xs arbitrary: k)
  case Nil
  then show ?case by simp
next
  case (Cons x xs)
  show ?case
  proof (cases k)
    case 0
    then show ?thesis by simp
  next
    case (Suc m)
    with Cons.prems have "m < length xs" and "f (xs ! m) \<noteq> f x"
      by (auto simp add: image_iff) (metis nth_mem)
    with Cons Suc show ?thesis by auto
  qed
qed

lemma overlay_same_ids:
  assumes "map id' xs = map id' cs" and "distinct (map id' cs)"
    and "list_all (\<lambda>x. lastPauseTimestamp x = None) xs"
  shows "map (overlay cs) xs = cs"
proof (rule nth_equalityI)
  from assms(1) have len: "length xs = length cs"
    by (rule map_eq_imp_length_eq)
  then show "length (map (overlay cs) xs) = length cs" by simp
  fix k assume "k < length (map (overlay cs) xs)"
  with len have k: "k < length cs" "k < length xs" by simp_all
  from assms(1) k have "id' (xs ! k) = id' (cs ! k)"
    by (metis nth_map)
  moreover from assms(2) k have "find (\<lambda>c. id' c = id' (cs ! k)) cs = Some (cs ! k)"
    by (simp add: find_nth_distinct)
  moreover from assms(3) k have "lastPauseTimestamp (xs ! k) = None"
    by (simp add: list_all_length)
  ultimately have "overlay cs (xs ! k) = cs ! k"
    by (cases "cs ! k") (simp add: overlay_def split: option.split)
  with k show "map (overlay cs) xs ! k = cs ! k" by simp
qed

lemma roundtrip_initial:
  assumes "persistable t" and "isHydrated t"
  shows "hydrate (Parsed (payload_json t)) initial_state = Inr t"
proof -
  from assms(1) have st: "list_all storable (counters t)" "0 \<le> filterStartEvents t"
    and ids: "map id' (counters t) = [1, 2, 3, 4, 5]"
    by (auto simp add: persistable_def)
  have "map id' createInitialCounters = map id' (counters t)"
    by (simp add: ids createInitialCounters_eq)
  moreover have "distinct (map id' (counters t))"
    by (simp add: ids)
  moreover have "list_all (\<lambda>x. lastPauseTimestamp x = None) createInitialCounters"
    by (simp add: createInitialCounters_eq)
  ultimately have "map (overlay (counters t)) createInitialCounters = counters t"
    by (rule overlay_same_ids)
  with assms(2) show ?thesis
    by (simp add: hydrate_own_snapshot [OF st] initial_state_def)
qed

section \<open>Hydration from any store\<close>

lemma number_field_nonneg: "0 \<le> dflt \<Longrightarrow> 0 \<le> number_field persisted k dflt"
  by (simp add: number_field_def split: sum.split option.split json.split)

lemma hydrateCounter_keeps:
  assumes "hydrateCounter items initial = Inr c"
  shows "id' c = id' initial" and "storable initial \<Longrightarrow> storable c"
proof -
  from assms show "id' c = id' initial"
    by (auto simp add: hydrateCounter_def split: sum.splits option.splits)
  assume "storable initial"
  with assms show "storable c"
    by (auto simp add: hydrateCounter_def storable_def number_field_nonneg
        split: sum.splits option.splits)
qed

lemma hydrateCounters_keeps:
  "hydrateCounters items initials = Inr cs \<Longrightarrow>
     map id' cs = map id' initials \<and> (list_all storable initials \<longrightarrow> list_all storable cs)"
proof (induction initials arbitrary: cs)
  case Nil
  then show ?case by simp
next
  case (Cons x xs)
  from Cons.prems obtain c cs' where c: "hydrateCounter items x = Inr c"
    and cs': "hydrateCounters items xs = Inr cs'" and cs: "cs = c # cs'"
    by (auto split: sum.splits)
  from Cons.IH [OF cs'] hydrateCounter_keeps [OF c] show ?case
    unfolding cs by simp
qed

lemma run_keeps_persistable:
  "list_all keeps_persistable cs \<Longrightarrow> persistable s \<Longrightarrow> persistable (run cs s)"
proof (induction cs arbitrary: s)
  case Nil
  then show ?case by simp
next
  case (Cons c cs)
  from Cons.prems have "persistable (apply_cmd s c)"
    by (cases c) (simp_all add: persistable_def)
  with Cons show ?case by simp
qed

lemma hydration_keeps_persistable:
  assumes "hydration st s = Inr cs" and "persistable s"
  shows "list_all keeps_persistable cs"
proof (cases st)
  case NoItem
  with assms show ?thesis by (auto simp add: hydration_def)
next
  case ReadFailed
  with assms show ?thesis by (auto simp add: hydration_def)
next
  case (Parsed parsed)
  show ?thesis
  proof (cases "property parsed ''globalElapsed''")
    case (Inl e)
    with assms Parsed show ?thesis by (auto simp add: hydration_def)
  next
    case (Inr ge)
    define setElapsed where
      "setElapsed = (case ge of Some (JNum n) \<Rightarrow> [SetGlobalElapsed n] | _ \<Rightarrow> [])"
    define setRunning where
      "setRunning = (case property parsed ''globalRunning'' of
                        Inr (Some (JBool b)) \<Rightarrow> [SetGlobalRunning b]
                      | _ \<Rightarrow> [])"
    define setEvents where
      "setEvents = (case property parsed ''filterStartEvents'' of
                        Inr (Some (JNum n)) \<Rightarrow> if n \<ge> 0 then [SetFilterStartEvents n] else []
                      | _ \<Rightarrow> [])"
    have ok: "list_all keeps_persistable setElapsed" "list_all keeps_persistable setRunning"
      "list_all keeps_persistable setEvents"
      by (simp_all add: setElapsed_def setRunning_def setEvents_def
          split: sum.split option.split json.split)
    have shape: "hydration st s =
        (case property parsed ''counters'' of
           Inr (Some (JArr items)) \<Rightarrow>
             (case hydrateCounters items (counters s) of
                Inl e \<Rightarrow> Inl e
              | Inr cs \<Rightarrow>
                  Inr (setElapsed @ setRunning @ [SetCounters cs] @ setEvents @
                       [SetIsHydrated True]))
         | _ \<Rightarrow> Inr (setElapsed @ setRunning @ setEvents @ [SetIsHydrated True]))"
      unfolding Parsed hydration_def setElapsed_def setRunning_def setEvents_def
      by (simp add: Inr Let_def)
    show ?thesis
    proof (cases "\<exists>items. property parsed ''counters'' = Inr (Some (JArr items))")
      case True
      then obtain items where items: "property parsed ''counters'' = Inr (Some (JArr items))"
        by blast
      with assms(1) shape obtain cs' where
        cs': "hydrateCounters items (counters s) = Inr cs'" and
        cs: "cs = setElapsed @ setRunning @ [SetCounters cs'] @ setEvents @ [SetIsHydrated True]"
        by (auto split: sum.splits)
      from hydrateCounters_keeps [OF cs'] assms(2) have "keeps_persistable (SetCounters cs')"
        by (simp add: persistable_def)
      with ok show ?thesis unfolding cs by simp
    next
      case False
      with assms(1) shape have
        "cs = setElapsed @ setRunning @ setEvents @ [SetIsHydrated True]"
        by (auto split: sum.splits option.splits json.splits)
      with ok show ?thesis by simp
    qed
  qed
qed

lemma hydrate_keeps_persistable:
  "hydrate st s = Inr s' \<Longrightarrow> persistable s \<Longrightarrow> persistable s'"
  by (auto simp add: hydrate_def run_keeps_persistable hydration_keeps_persistable
      split: sum.splits)

section \<open>Reachable states\<close>

lemma reachable_invariant: "reachable s \<Longrightarrow> invariant s"
proof (induction rule: reachable.induct)
  case mount
  show ?case by (rule invariant_initial)
next
  case (event s ev)
  then show ?case by (simp add: invariant_step)
next
  case (hydrate_fresh s st s')
  then have "s' = s\<lparr>isHydrated := True\<rparr>"
    by (simp add: hydrate_no_snapshot)
  with hydrate_fresh.IH show ?case
    by (simp add: invariant_def persistable_def)
next
  case (hydrate_own s t j s')
  from hydrate_own.IH have it: "invariant t" and ic: "invariant s"
    by simp_all
  from hydrate_own.hyps have j: "j = payload_json t"
    by (simp add: persist_Some)
  from it have st: "list_all storable (counters t)" "0 \<le> filterStartEvents t"
    by (auto simp add: invariant_def persistable_def)
  from hydrate_own.hyps have
    "s' = s\<lparr>globalElapsed := globalElapsed t, globalRunning := globalRunning t,
            counters := map (overlay (counters t)) (counters s),
            filterStartEvents := filterStartEvents t, isHydrated := True\<rparr>"
    unfolding j by (simp add: hydrate_own_snapshot [OF st])
  with it ic show ?case
    by (simp add: invariant_def persistable_def list_all_overlay)
qed

lemma reachable_from_any_store_persistable:
  "reachable_from_any_store s \<Longrightarrow> persistable s"
  by (induction rule: reachable_from_any_store.induct)
    (simp_all add: persistable_initial persistable_step hydrate_keeps_persistable)

lemma reachable_is_reachable_from_any_store:
  "reachable s \<Longrightarrow> reachable_from_any_store s"
  by (induction rule: reachable.induct) (auto intro: reachable_from_any_store.intros)

lemma reachable_activated: "reachable activated"
proof -
  have "hydrate NoItem initial_state = Inr (initial_state\<lparr>isHydrated := True\<rparr>)"
    by (simp add: hydrate_no_snapshot)
  moreover have "\<not> isHydrated initial_state"
    by (simp add: initial_state_def)
  ultimately have "reachable (initial_state\<lparr>isHydrated := True\<rparr>)"
    using reachable.mount reachable.hydrate_fresh by blast
  then have "reachable (step (Press ActivateOnPress) (initial_state\<lparr>isHydrated := True\<rparr>))"
    by (rule reachable.event)
  moreover have "step (Press ActivateOnPress) (initial_state\<lparr>isHydrated := True\<rparr>) = activated"
    by (simp add: step_Press initial_state_def activated_def)
  ultimately show ?thesis by simp
qed

lemma reachable_started3: "reachable started3"
  unfolding started3_def using reachable_activated by (rule reachable.event)

lemma reachable_paused3: "reachable paused3"
  unfolding paused3_def using reachable_started3 by (rule reachable.event)

lemma reachable_ticked:
  "n \<le> 14400 \<Longrightarrow> reachable (activated\<lparr>globalElapsed := of_nat n\<rparr>)"
proof (induction n)
  case 0
  have "activated\<lparr>globalElapsed := of_nat 0\<rparr> = activated"
    by (simp add: activated_def)
  with reachable_activated show ?case by simp
next
  case (Suc n)
  then have r: "reachable (activated\<lparr>globalElapsed := of_nat n\<rparr>)" and n: "n < 14400"
    by simp_all
  from n have "of_nat (Suc n) \<le> (of_nat 14400 :: rat)"
    unfolding of_nat_le_iff by simp
  then have "(of_nat n :: rat) + 1 \<le> 14400"
    by simp
  then have "step GlobalTick (activated\<lparr>globalElapsed := of_nat n\<rparr>) =
      activated\<lparr>globalElapsed := of_nat (Suc n)\<rparr>"
    by (simp add: step_GlobalTick activated_def GLOBAL_ALARM_INTERVAL_SECONDS_def min_def
        add.commute)
  with reachable.event [OF r, of GlobalTick] show ?case by simp
qed

lemma reachable_alarm_due: "reachable alarm_due"
proof -
  have r: "reachable (activated\<lparr>globalElapsed := of_nat 14400\<rparr>)"
    by (rule reachable_ticked) simp
  have e: "alarm_due = activated\<lparr>globalElapsed := of_nat 14400\<rparr>"
    by (simp add: alarm_due_def GLOBAL_ALARM_INTERVAL_SECONDS_def)
  show ?thesis
    unfolding e by (rule r)
qed

lemma persistable_paused3: "persistable paused3"
  using reachable_paused3 reachable_invariant by (simp add: invariant_def)

lemma roundtrip_paused3: "hydrate (Parsed (payload_json paused3)) initial_state = Inr paused3"
proof (rule roundtrip_initial)
  show "persistable paused3"
    by (rule persistable_paused3)
  show "isHydrated paused3"
    by (simp add: paused3_eq)
qed

lemma hydrated_negative_reachable:
  "reachable_from_any_store (initial_state\<lparr>globalElapsed := - 5, isHydrated := True\<rparr>)"
proof (rule reachable_from_any_store.hydrate_any)
  show "reachable_from_any_store initial_state"
    by (rule reachable_from_any_store.mount_any)
  show "\<not> isHydrated initial_state"
    by (simp add: initial_state_def)
  show "hydrate (Parsed (JObj [(''globalElapsed'', JNum (- 5))])) initial_state =
     Inr (initial_state\<lparr>globalElapsed := - 5, isHydrated := True\<rparr>)"
    by (simp add: hydrate_def hydration_def)
qed

section \<open>The sound functions, call by call\<close>















section \<open>The worked scenario\<close>

text \<open>
  Counter 3 starts (a qualifying start), runs for five ticks, is paused, resumed
  10 s later (not qualifying), paused again and resumed 31 s later: the second
  qualifying start, which raises the filter alert and resets the accumulator.
\<close>

lemma scenario_running_eq:
  "scenario_running =
     started3\<lparr>counters := (counters started3)
        [2 := \<lparr>id' = 3, elapsed = 5, isRunning = True, isEmpty = False, startCount = 0,
               lastPauseTimestamp = None, filterClicks = 1\<rparr>]\<rparr>"
  by (simp add: scenario_running_def started3_eq step_CounterTick isAnyCounterRunning_def
      tickCounter_def numeral_eq_Suc)

lemma scenario_paused_eq:
  "scenario_paused =
     started3\<lparr>counters := (counters started3)
        [2 := \<lparr>id' = 3, elapsed = 5, isRunning = False, isEmpty = False, startCount = 0,
               lastPauseTimestamp = Some 100000, filterClicks = 1\<rparr>]\<rparr>"
  by (simp add: scenario_paused_def scenario_running_eq started3_eq step_ToggleCounter
      allowFilterIncrement_def toggleCounter_def)

lemma scenario_resumed_eq:
  "scenario_resumed =
     started3\<lparr>counters := (counters started3)
        [2 := \<lparr>id' = 3, elapsed = 5, isRunning = True, isEmpty = False, startCount = 0,
               lastPauseTimestamp = None, filterClicks = 1\<rparr>]\<rparr>"
  by (simp add: scenario_resumed_def scenario_paused_eq started3_eq step_ToggleCounter
      allowFilterIncrement_def toggleCounter_def)

lemma scenario_paused_again_eq:
  "scenario_paused_again =
     started3\<lparr>counters := (counters started3)
        [2 := \<lparr>id' = 3, elapsed = 5, isRunning = False, isEmpty = False, startCount = 0,
               lastPauseTimestamp = Some 120000, filterClicks = 1\<rparr>]\<rparr>"
  by (simp add: scenario_paused_again_def scenario_resumed_eq started3_eq step_ToggleCounter
      allowFilterIncrement_def toggleCounter_def)

lemma scenario_of_the_specification:
  "filterClicks (counters started3 ! 2) = 1 \<and> filterStartEvents started3 = 1 \<and>
   elapsed (counters scenario_running ! 2) = 5 \<and>
   lastPauseTimestamp (counters scenario_paused ! 2) = Some 100000 \<and>
   filterClicks (counters scenario_resumed ! 2) = 1 \<and> filterStartEvents scenario_resumed = 1 \<and>
   elapsed (counters scenario_paused_again ! 2) = 5 \<and>
   filterClicks (counters (step (ToggleCounter 151000 151000 3) scenario_paused_again) ! 2) = 2 \<and>
   set triggerFilterAlert \<subseteq> set (calls (ToggleCounter 151000 151000 3) scenario_paused_again) \<and>
   filterStartEvents (step (ToggleCounter 151000 151000 3) scenario_paused_again) = 0"
  by (simp add: scenario_running_eq scenario_paused_eq scenario_resumed_eq
      scenario_paused_again_eq started3_eq step_ToggleCounter allowFilterIncrement_def
      toggleCounter_def handleToggleCounter_def filterStartEventsUpdate_def
      triggerFilterAlert_def)

section \<open>Qualifying starts\<close>

text \<open>
  C1 (as amended). A toggle received while the service runs, for a counter that is
  found and not running, starts it. The start qualifies exactly when the counter was
  empty, or was paused with a pause timestamp at least 30000 ms before the clock
  reading \<open>now\<close> (30000 itself included). A qualifying start adds exactly 1 to the
  counter's \<open>filterClicks\<close> and 1 to \<open>filterStartEvents\<close>, which is reset to 0 in
  the same update when the sum reaches 2; any other start leaves both as they were.
\<close>

theorem qualifying_start:
  assumes "globalRunning s"
    and "find (\<lambda>c. id' c = i) (counters s) = Some c"
    and "\<not> isRunning c"
  shows "find (\<lambda>c. id' c = i) (counters (step (ToggleCounter now now' i) s)) =
      Some (c\<lparr>isRunning := True, isEmpty := False, startCount := 0,
              lastPauseTimestamp := None,
              filterClicks :=
                (if isEmpty c \<or>
                    (\<not> isEmpty c \<and> (\<exists>t. lastPauseTimestamp c = Some t \<and> now - t \<ge> 30000))
                 then filterClicks c + 1 else filterClicks c)\<rparr>) \<and>
    filterStartEvents (step (ToggleCounter now now' i) s) =
      (if isEmpty c \<or>
          (\<not> isEmpty c \<and> (\<exists>t. lastPauseTimestamp c = Some t \<and> now - t \<ge> 30000))
       then (if filterStartEvents s + 1 \<ge> 2 then 0 else filterStartEvents s + 1)
       else filterStartEvents s)"
proof -
  from assms(2) have same: "id' c = i"
    by (auto simp add: find_Some_iff)
  from assms(2,3) have allow: "allowFilterIncrement now i s \<longleftrightarrow>
      isEmpty c \<or> (\<not> isEmpty c \<and> (\<exists>t. lastPauseTimestamp c = Some t \<and> now - t \<ge> 30000))"
    by (auto simp add: allowFilterIncrement_def split: option.split)
  from assms same allow show ?thesis
    by (simp add: step_ToggleCounter find_map_toggleCounter toggleCounter_def)
qed

theorem qualifying_start_witness:
  "globalRunning paused3 \<and>
   find (\<lambda>c. id' c = 3) (counters paused3) = Some (counters paused3 ! 2) \<and>
   \<not> isRunning (counters paused3 ! 2) \<and>
   lastPauseTimestamp (counters paused3 ! 2) = Some 2000 \<and>
   find (\<lambda>c. id' c = 3) (counters (step (ToggleCounter 32000 32001 3) paused3)) =
     Some \<lparr>id' = 3, elapsed = 0, isRunning = True, isEmpty = False, startCount = 0,
           lastPauseTimestamp = None, filterClicks = 2\<rparr> \<and>
   filterStartEvents (step (ToggleCounter 32000 32001 3) paused3) = 0"
proof -
  have h: "globalRunning paused3"
    "find (\<lambda>c. id' c = 3) (counters paused3) = Some (counters paused3 ! 2)"
    "\<not> isRunning (counters paused3 ! 2)"
    by (simp_all add: paused3_eq)
  have v: "counters paused3 ! 2 =
      \<lparr>id' = 3, elapsed = 0, isRunning = False, isEmpty = False, startCount = 0,
       lastPauseTimestamp = Some 2000, filterClicks = 1\<rparr>"
    "filterStartEvents paused3 = 1"
    by (simp_all add: paused3_eq)
  from qualifying_start [OF h, of 32000 32001] h show ?thesis
    unfolding v by simp
qed

text \<open>
  C1 as worded does not hold: with one qualifying start already counted, the
  qualifying start of the empty counter 4 takes \<open>filterStartEvents\<close> from 1 to 0, not
  to 2.
\<close>

theorem accumulator_wraps_counterexample:
  "globalRunning started3 \<and>
   id' (counters started3 ! 3) = 4 \<and>
   isEmpty (counters started3 ! 3) \<and>
   \<not> isRunning (counters started3 ! 3) \<and>
   filterClicks (counters (step (ToggleCounter 5000 5000 4) started3) ! 3) =
     filterClicks (counters started3 ! 3) + 1 \<and>
   filterStartEvents started3 = 1 \<and>
   filterStartEvents (step (ToggleCounter 5000 5000 4) started3) = 0 \<and>
   filterStartEvents (step (ToggleCounter 5000 5000 4) started3) \<noteq>
     filterStartEvents started3 + 1"
  by (simp add: started3_eq step_ToggleCounter allowFilterIncrement_def toggleCounter_def)

section \<open>The filter accumulator\<close>

text \<open>
  C2. In any state, a qualifying start whose increment reaches 2 raises the filter
  alert (vibration 0, 400, 150, 400, the filter sound, the dialog that cannot be
  cancelled) and then sets \<open>filterStartEvents\<close> to 0, in the same update; one whose
  increment stays below 2 stores the incremented value and raises no alert; either
  way the value left is not 2. In every reachable state \<open>filterStartEvents\<close> is 0 or
  1, and stays so after any event: it cycles 0, 1, 0. The filter alert is raised by
  no other event and in no other reachable state.
\<close>

theorem filter_accumulator_cycle:
  "(globalRunning s \<and> allowFilterIncrement now i s \<longrightarrow>
      (filterStartEvents s + 1 \<ge> 2 \<longrightarrow>
         calls (ToggleCounter now now' i) s =
           [SetCounters (map (toggleCounter True now' i) (counters s)),
            Vibrate [0, 400, 150, 400], PlayFilterSound,
            ShowAlert Filtration [(''OK'', StopFilterOnPress)] (Some False),
            SetFilterStartEvents 0] \<and>
         filterStartEvents (step (ToggleCounter now now' i) s) = 0) \<and>
      (filterStartEvents s + 1 < 2 \<longrightarrow>
         calls (ToggleCounter now now' i) s =
           [SetCounters (map (toggleCounter True now' i) (counters s)),
            SetFilterStartEvents (filterStartEvents s + 1)] \<and>
         filterStartEvents (step (ToggleCounter now now' i) s) = filterStartEvents s + 1) \<and>
      filterStartEvents (step (ToggleCounter now now' i) s) \<noteq> 2) \<and>
   (reachable s \<longrightarrow>
      (filterStartEvents s = 0 \<or> filterStartEvents s = 1) \<and>
      (\<forall>ev. filterStartEvents (step ev s) = 0 \<or> filterStartEvents (step ev s) = 1) \<and>
      (\<forall>ev. PlayFilterSound \<in> set (calls ev s) \<longleftrightarrow>
         (\<exists>now now' i. ev = ToggleCounter now now' i \<and> globalRunning s \<and>
            allowFilterIncrement now i s \<and> filterStartEvents s = 1)))"
proof -
  have update: "globalRunning s \<and> allowFilterIncrement now i s \<longrightarrow>
      (filterStartEvents s + 1 \<ge> 2 \<longrightarrow>
         calls (ToggleCounter now now' i) s =
           [SetCounters (map (toggleCounter True now' i) (counters s)),
            Vibrate [0, 400, 150, 400], PlayFilterSound,
            ShowAlert Filtration [(''OK'', StopFilterOnPress)] (Some False),
            SetFilterStartEvents 0] \<and>
         filterStartEvents (step (ToggleCounter now now' i) s) = 0) \<and>
      (filterStartEvents s + 1 < 2 \<longrightarrow>
         calls (ToggleCounter now now' i) s =
           [SetCounters (map (toggleCounter True now' i) (counters s)),
            SetFilterStartEvents (filterStartEvents s + 1)] \<and>
         filterStartEvents (step (ToggleCounter now now' i) s) = filterStartEvents s + 1) \<and>
      filterStartEvents (step (ToggleCounter now now' i) s) \<noteq> 2"
    by (simp add: step_ToggleCounter handleToggleCounter_def filterStartEventsUpdate_def
        triggerFilterAlert_def)
  have cycle: "(filterStartEvents s = 0 \<or> filterStartEvents s = 1) \<and>
      (\<forall>ev. filterStartEvents (step ev s) = 0 \<or> filterStartEvents (step ev s) = 1) \<and>
      (\<forall>ev. PlayFilterSound \<in> set (calls ev s) \<longleftrightarrow>
         (\<exists>now now' i. ev = ToggleCounter now now' i \<and> globalRunning s \<and>
            allowFilterIncrement now i s \<and> filterStartEvents s = 1))"
    if r: "reachable s"
  proof -
    from r have inv: "invariant s"
      by (rule reachable_invariant)
    then have now: "filterStartEvents s = 0 \<or> filterStartEvents s = 1"
      by (simp add: invariant_def)
    have later: "filterStartEvents (step ev s) = 0 \<or> filterStartEvents (step ev s) = 1" for ev
      using invariant_step [OF inv, of ev] by (simp add: invariant_def)
    have alert: "PlayFilterSound \<in> set (calls ev s) \<longleftrightarrow>
         (\<exists>now now' i. ev = ToggleCounter now now' i \<and> globalRunning s \<and>
            allowFilterIncrement now i s \<and> filterStartEvents s = 1)" for ev
    proof (cases ev)
      case (ToggleCounter now now' i)
      with now show ?thesis
        by (auto simp add: handleToggleCounter_def filterStartEventsUpdate_def
            triggerFilterAlert_def Let_def split: if_splits)
    next
      case (Press p)
      then show ?thesis by (cases p) simp_all
    qed (simp_all add: globalTick_def counterTick_def alarmEffect_def
        handleActivateGlobal_def handleConfirmResetAll_def handleClearCounter_def)
    from now later alert show ?thesis
      by blast
  qed
  from update cycle show ?thesis
    by blast
qed

theorem filter_accumulator_cycle_witness:
  "reachable started3 \<and> filterStartEvents started3 = 1 \<and>
   globalRunning started3 \<and> allowFilterIncrement 5000 4 started3 \<and>
   calls (ToggleCounter 5000 5000 4) started3 =
     [SetCounters (map (toggleCounter True 5000 4) (counters started3)),
      Vibrate [0, 400, 150, 400], PlayFilterSound,
      ShowAlert Filtration [(''OK'', StopFilterOnPress)] (Some False),
      SetFilterStartEvents 0] \<and>
   filterStartEvents (step (ToggleCounter 5000 5000 4) started3) = 0"
proof -
  have h: "globalRunning started3" "allowFilterIncrement 5000 4 started3"
    "filterStartEvents started3 = 1" "filterStartEvents started3 + 1 \<ge> 2"
    by (simp_all add: started3_eq allowFilterIncrement_def)
  from filter_accumulator_cycle [of started3 5000 4 5000] h reachable_started3
  show ?thesis by blast
qed

section \<open>The alarm\<close>




section \<open>The global elapsed time\<close>

text \<open>
  C4. In any state, a tick on a hydrated, running screen moves the global elapsed
  time to the smaller of its successor and the alarm interval, so never above the
  interval; without the interval callback installed the tick does nothing. In every
  reachable state the elapsed time lies between 0 and the alarm interval, still does
  after any event, and is not lowered by a tick; the only events that lower it are
  the confirmed activation, the confirmed reset and the alarm effect.
\<close>

theorem global_elapsed_bounded:
  "(isHydrated s \<and> globalRunning s \<longrightarrow>
      globalElapsed (step GlobalTick s) =
        min (globalElapsed s + 1) GLOBAL_ALARM_INTERVAL_SECONDS \<and>
      globalElapsed (step GlobalTick s) \<le> GLOBAL_ALARM_INTERVAL_SECONDS) \<and>
   (\<not> (isHydrated s \<and> globalRunning s) \<longrightarrow> step GlobalTick s = s) \<and>
   (reachable s \<longrightarrow>
      0 \<le> globalElapsed s \<and> globalElapsed s \<le> GLOBAL_ALARM_INTERVAL_SECONDS \<and>
      globalElapsed s \<le> globalElapsed (step GlobalTick s) \<and>
      (\<forall>ev. 0 \<le> globalElapsed (step ev s) \<and>
            globalElapsed (step ev s) \<le> GLOBAL_ALARM_INTERVAL_SECONDS) \<and>
      (\<forall>ev. globalElapsed (step ev s) < globalElapsed s \<longrightarrow>
            ev = Press ActivateOnPress \<or> ev = Press ResetAllOnPress \<or> ev = AlarmEffect))"
proof -
  have tick: "isHydrated s \<and> globalRunning s \<longrightarrow>
      globalElapsed (step GlobalTick s) =
        min (globalElapsed s + 1) GLOBAL_ALARM_INTERVAL_SECONDS \<and>
      globalElapsed (step GlobalTick s) \<le> GLOBAL_ALARM_INTERVAL_SECONDS"
    by (simp add: step_GlobalTick)
  have idle: "\<not> (isHydrated s \<and> globalRunning s) \<longrightarrow> step GlobalTick s = s"
    by (simp add: step_GlobalTick)
  have range: "0 \<le> globalElapsed s \<and> globalElapsed s \<le> GLOBAL_ALARM_INTERVAL_SECONDS \<and>
      globalElapsed s \<le> globalElapsed (step GlobalTick s) \<and>
      (\<forall>ev. 0 \<le> globalElapsed (step ev s) \<and>
            globalElapsed (step ev s) \<le> GLOBAL_ALARM_INTERVAL_SECONDS) \<and>
      (\<forall>ev. globalElapsed (step ev s) < globalElapsed s \<longrightarrow>
            ev = Press ActivateOnPress \<or> ev = Press ResetAllOnPress \<or> ev = AlarmEffect)"
    if r: "reachable s"
  proof -
    from r have inv: "invariant s"
      by (rule reachable_invariant)
    then have bounds: "0 \<le> globalElapsed s" "globalElapsed s \<le> GLOBAL_ALARM_INTERVAL_SECONDS"
      by (simp_all add: invariant_def)
    then have up: "globalElapsed s \<le> globalElapsed (step GlobalTick s)"
      by (simp add: step_GlobalTick min_def)
    have later: "0 \<le> globalElapsed (step ev s) \<and>
        globalElapsed (step ev s) \<le> GLOBAL_ALARM_INTERVAL_SECONDS" for ev
      using invariant_step [OF inv, of ev] by (simp add: invariant_def)
    have mono: "globalElapsed (step ev s) < globalElapsed s \<longrightarrow>
        ev = Press ActivateOnPress \<or> ev = Press ResetAllOnPress \<or> ev = AlarmEffect" for ev
    proof (cases ev)
      case GlobalTick
      with up show ?thesis by simp
    next
      case (Press p)
      then show ?thesis by (cases p) (simp_all add: step_Press)
    qed (simp_all add: step_simps)
    from bounds up later mono show ?thesis
      by blast
  qed
  from tick idle range show ?thesis
    by blast
qed

theorem global_elapsed_bounded_witness:
  "reachable alarm_due \<and> isHydrated alarm_due \<and> globalRunning alarm_due \<and>
   globalElapsed alarm_due = 14400 \<and>
   globalElapsed (step GlobalTick alarm_due) = 14400 \<and>
   globalElapsed (step AlarmEffect alarm_due) = 0 \<and>
   globalElapsed (step AlarmEffect alarm_due) < globalElapsed alarm_due"
proof -
  have h: "isHydrated alarm_due" "globalRunning alarm_due" "globalElapsed alarm_due = 14400"
    "globalElapsed (step AlarmEffect alarm_due) = 0"
    by (simp_all add: alarm_due_def activated_def GLOBAL_ALARM_INTERVAL_SECONDS_def
        step_AlarmEffect)
  from global_elapsed_bounded [of alarm_due] h
  have "globalElapsed (step GlobalTick alarm_due) = min (14400 + 1) GLOBAL_ALARM_INTERVAL_SECONDS"
    by simp
  then have "globalElapsed (step GlobalTick alarm_due) = 14400"
    by (simp add: GLOBAL_ALARM_INTERVAL_SECONDS_def)
  with h reachable_alarm_due show ?thesis by simp
qed

section \<open>Toggling while the service is stopped\<close>

text \<open>
  C5. A toggle of any counter while \<open>globalRunning\<close> is false makes one call, the
  "Service inactif" notice, and leaves every state variable as it was.
\<close>

theorem toggle_while_stopped_rejected:
  "\<not> globalRunning s \<Longrightarrow>
     handleToggleCounter now now' i s = [ShowAlert ServiceInactif [] None] \<and>
     step (ToggleCounter now now' i) s = s"
  by (simp add: handleToggleCounter_def step_def)

theorem toggle_while_stopped_rejected_witness:
  "\<not> globalRunning initial_state \<and>
   handleToggleCounter 1000 1000 3 initial_state = [ShowAlert ServiceInactif [] None] \<and>
   step (ToggleCounter 1000 1000 3) initial_state = initial_state"
  using toggle_while_stopped_rejected [of initial_state 1000 1000 3]
  by (simp add: initial_state_def)

section \<open>Reset all\<close>




section \<open>The counter tick\<close>

text \<open>
  C7. One tick of the counter interval, on a hydrated screen, keeps the list of
  counters in place, adds exactly 1 to the elapsed time of each counter that was
  running (which is then marked not empty, its other fields kept) and returns every
  counter that was not running unchanged.
\<close>

theorem counter_tick_lockstep:
  "isHydrated s \<Longrightarrow>
     length (counters (step CounterTick s)) = length (counters s) \<and>
     (\<forall>k < length (counters s).
        (isRunning (counters s ! k) \<longrightarrow>
           counters (step CounterTick s) ! k =
             (counters s ! k)\<lparr>elapsed := elapsed (counters s ! k) + 1, isEmpty := False\<rparr>) \<and>
        (\<not> isRunning (counters s ! k) \<longrightarrow>
           counters (step CounterTick s) ! k = counters s ! k))"
proof (cases "isAnyCounterRunning s")
  case True
  assume "isHydrated s"
  with True have "counters (step CounterTick s) = map tickCounter (counters s)"
    by (simp add: step_def counterTick_def)
  then show ?thesis by (simp add: tickCounter_def)
next
  case False
  then have none: "\<forall>k < length (counters s). \<not> isRunning (counters s ! k)"
    by (auto simp: isAnyCounterRunning_def list_ex_iff)
  from False have "step CounterTick s = s"
    by (simp add: step_def counterTick_def)
  with none show ?thesis by simp
qed

theorem counter_tick_lockstep_witness:
  "isHydrated started3 \<and>
   counters (step CounterTick started3) ! 2 =
     (counters started3 ! 2)\<lparr>elapsed := 1, isEmpty := False\<rparr> \<and>
   counters (step CounterTick started3) ! 3 = counters started3 ! 3"
proof -
  have h: "isHydrated started3" by (simp add: started3_eq)
  have r: "isRunning (counters started3 ! 2)" "\<not> isRunning (counters started3 ! 3)"
    "length (counters started3) = 5" "elapsed (counters started3 ! 2) = 0"
    by (simp_all add: started3_eq)
  from counter_tick_lockstep [OF h] r h show ?thesis
    by simp
qed

section \<open>Empty counters\<close>

text \<open>
  C8 (as amended). Every event, a hydration from an empty or unreadable store, and a
  hydration from a snapshot that the persist effect wrote from a reachable state,
  preserve for every counter that at most one of "is empty" and "has nonzero elapsed
  time or is running" holds; in particular no counter is empty and running.
\<close>

theorem at_most_one_preserved:
  assumes "list_all atMostOne (counters s)"
  shows "list_all atMostOne (counters (step ev s)) \<and>
    list_all (\<lambda>c. \<not> (isEmpty c \<and> isRunning c)) (counters (step ev s)) \<and>
    (\<forall>st. st = NoItem \<or> st = ReadFailed \<longrightarrow>
       (\<exists>s'. hydrate st s = Inr s' \<and> list_all atMostOne (counters s'))) \<and>
    (\<forall>t j. reachable t \<and> persist t = Some j \<longrightarrow>
       (\<exists>s'. hydrate (Parsed j) s = Inr s' \<and> list_all atMostOne (counters s')))"
proof -
  have ev: "list_all atMostOne (counters (step ev s))"
  proof (cases ev)
    case GlobalTick
    with assms show ?thesis by (simp add: step_GlobalTick)
  next
    case CounterTick
    with assms show ?thesis
      by (simp add: step_CounterTick list_all_map_preserved atMostOne_tickCounter)
  next
    case AlarmEffect
    with assms show ?thesis by (simp add: step_AlarmEffect)
  next
    case ActivateGlobal
    with assms show ?thesis by (simp add: step_ActivateGlobal)
  next
    case ConfirmResetAll
    with assms show ?thesis by (simp add: step_ConfirmResetAll)
  next
    case (ToggleCounter now now' i)
    with assms show ?thesis
      by (simp add: step_ToggleCounter list_all_map_preserved atMostOne_toggleCounter)
  next
    case (ClearCounter i)
    with assms show ?thesis
      by (simp add: step_ClearCounter list_all_map_preserved atMostOne_clearCounter)
  next
    case (Press p)
    with assms show ?thesis
      by (cases p) (simp_all add: step_Press atMostOne_initial)
  qed
  then have weak: "list_all (\<lambda>c. \<not> (isEmpty c \<and> isRunning c)) (counters (step ev s))"
    by (auto simp add: list_all_iff atMostOne_def)
  have fresh: "st = NoItem \<or> st = ReadFailed \<longrightarrow>
       (\<exists>s'. hydrate st s = Inr s' \<and> list_all atMostOne (counters s'))" for st
    using assms by (auto simp add: hydrate_no_snapshot)
  have own: "reachable t \<and> persist t = Some j \<longrightarrow>
       (\<exists>s'. hydrate (Parsed j) s = Inr s' \<and> list_all atMostOne (counters s'))" for t j
  proof
    assume a: "reachable t \<and> persist t = Some j"
    then have inv: "invariant t" and j: "j = payload_json t"
      by (simp_all add: reachable_invariant persist_Some)
    from inv have st: "list_all storable (counters t)" "0 \<le> filterStartEvents t"
      and am: "list_all atMostOne (counters t)"
      by (auto simp add: invariant_def persistable_def)
    from am assms show "\<exists>s'. hydrate (Parsed j) s = Inr s' \<and> list_all atMostOne (counters s')"
      unfolding j by (simp add: hydrate_own_snapshot [OF st] list_all_overlay)
  qed
  from ev weak fresh own show ?thesis
    by blast
qed

theorem at_most_one_preserved_witness:
  "list_all atMostOne (counters started3) \<and>
   list_all atMostOne (counters (step (ToggleCounter 2000 2000 3) started3)) \<and>
   list_all atMostOne (counters initial_state) \<and>
   reachable paused3 \<and> persist paused3 = Some (payload_json paused3) \<and>
   hydrate (Parsed (payload_json paused3)) initial_state = Inr paused3 \<and>
   list_all atMostOne (counters paused3)"
proof -
  have h: "list_all atMostOne (counters started3)"
    by (simp add: started3_eq atMostOne_def)
  have i: "list_all atMostOne (counters initial_state)"
    by (simp add: initial_state_def atMostOne_initial)
  have p: "persist paused3 = Some (payload_json paused3)"
    by (simp add: persist_def paused3_eq)
  from at_most_one_preserved [OF i, of "Press NoHandler"] reachable_paused3 p
  have "\<exists>s'. hydrate (Parsed (payload_json paused3)) initial_state = Inr s' \<and>
      list_all atMostOne (counters s')"
    by blast
  with roundtrip_paused3 have "list_all atMostOne (counters paused3)"
    by simp
  with at_most_one_preserved [OF h, of "ToggleCounter 2000 2000 3"] h i p roundtrip_paused3
    reachable_paused3
  show ?thesis by simp
qed

text \<open>
  C8 as worded does not hold. With exactly one of the two: counter 3 started and
  paused again before its first tick is not empty, has no elapsed time and is not
  running, while every counter satisfied "exactly one" before the pause. With any
  stored snapshot: a store that holds only \<open>isRunning = true\<close> for counter 1 leaves
  the default \<open>isEmpty = true\<close> beside it, an empty running counter.
\<close>

theorem exactly_one_broken_by_pause_counterexample:
  "reachable started3 \<and>
   list_all exactlyOne (counters started3) \<and>
   \<not> list_all exactlyOne (counters (step (ToggleCounter 2000 2000 3) started3)) \<and>
   isEmpty (counters (step (ToggleCounter 2000 2000 3) started3) ! 2) = False \<and>
   elapsed (counters (step (ToggleCounter 2000 2000 3) started3) ! 2) = 0 \<and>
   isRunning (counters (step (ToggleCounter 2000 2000 3) started3) ! 2) = False \<and>
   list_all exactlyOne (counters initial_state) \<and>
   hydrate (Parsed (JObj [(''counters'',
       JArr [JObj [(''id'', JNum 1), (''isRunning'', JBool True)]])])) initial_state =
     Inr half_restored \<and>
   isEmpty (counters half_restored ! 0) \<and> isRunning (counters half_restored ! 0)"
proof -
  have pause: "list_all exactlyOne (counters started3) \<and>
   \<not> list_all exactlyOne (counters (step (ToggleCounter 2000 2000 3) started3)) \<and>
   isEmpty (counters (step (ToggleCounter 2000 2000 3) started3) ! 2) = False \<and>
   elapsed (counters (step (ToggleCounter 2000 2000 3) started3) ! 2) = 0 \<and>
   isRunning (counters (step (ToggleCounter 2000 2000 3) started3) ! 2) = False"
    using paused3_eq by (simp add: started3_eq exactlyOne_def paused3_def)
  have fresh: "list_all exactlyOne (counters initial_state)"
    by (simp add: initial_state_def createInitialCounters_eq exactlyOne_def)
  have store: "hydrate (Parsed (JObj [(''counters'',
       JArr [JObj [(''id'', JNum 1), (''isRunning'', JBool True)]])])) initial_state =
     Inr half_restored"
    by (simp add: hydrate_def hydration_def initial_state_def createInitialCounters_eq
        hydrateCounter_def number_field_def boolean_field_def half_restored_def)
  have bad: "isEmpty (counters half_restored ! 0) \<and> isRunning (counters half_restored ! 0)"
    by (simp add: half_restored_def)
  from reachable_started3 pause fresh store bad show ?thesis
    by blast
qed

section \<open>Validation in hydration\<close>

text \<open>
  C9 says that hydration applies a persisted number only if it is at least 0,
  \<open>globalElapsed\<close> included. Hydration checks the type of the persisted
  \<open>globalElapsed\<close> but not its range, unlike the other numeric fields: from the
  stored object with the single property \<open>globalElapsed = -5\<close> the fresh screen takes
  the negative value.
\<close>

theorem hydration_accepts_negative_globalElapsed:
  "hydrate (Parsed (JObj [(''globalElapsed'', JNum (- 5))])) initial_state =
     Inr (initial_state\<lparr>globalElapsed := - 5, isHydrated := True\<rparr>)"
  by (simp add: hydrate_def hydration_def)

text \<open>
  A \<open>null\<close> among the persisted counters makes the updater of the counters throw,
  outside the \<open>try\<close> block of the effect.
\<close>

lemma hydration_null_counter_uncaught:
  "hydrate (Parsed (JObj [(''counters'', JArr [JNull])])) initial_state = Inl TypeError"
  by (simp add: hydrate_def hydration_def initial_state_def createInitialCounters_eq
      hydrateCounter_def)

section \<open>Round trip through the store\<close>

text \<open>
  C10. Whatever the store held at hydration, for every state the screen can reach
  and every snapshot the persist effect writes from it, hydrating a fresh screen from
  that snapshot gives back the same state, field for field.
\<close>

theorem persist_hydrate_roundtrip:
  "reachable_from_any_store s \<Longrightarrow> persist s = Some j \<Longrightarrow>
     hydrate (Parsed j) initial_state = Inr s"
  using roundtrip_initial [of s]
  by (auto simp add: reachable_from_any_store_persistable dest: persist_Some)

theorem persist_hydrate_roundtrip_witness:
  "reachable_from_any_store paused3 \<and> persist paused3 = Some (payload_json paused3) \<and>
   hydrate (Parsed (payload_json paused3)) initial_state = Inr paused3 \<and>
   reachable_from_any_store (initial_state\<lparr>globalElapsed := - 5, isHydrated := True\<rparr>) \<and>
   hydrate (Parsed (payload_json (initial_state\<lparr>globalElapsed := - 5, isHydrated := True\<rparr>)))
       initial_state =
     Inr (initial_state\<lparr>globalElapsed := - 5, isHydrated := True\<rparr>)"
proof -
  have r: "reachable_from_any_store paused3"
    using reachable_paused3 by (rule reachable_is_reachable_from_any_store)
  have p: "persist paused3 = Some (payload_json paused3)"
    by (simp add: persist_def paused3_eq)
  have q: "persist (initial_state\<lparr>globalElapsed := - 5, isHydrated := True\<rparr>) =
      Some (payload_json (initial_state\<lparr>globalElapsed := - 5, isHydrated := True\<rparr>))"
    by (simp add: persist_def)
  from persist_hydrate_roundtrip [OF r p]
    persist_hydrate_roundtrip [OF hydrated_negative_reachable q]
    r p hydrated_negative_reachable
  show ?thesis by simp
qed

end
